theory Spec2Isabelle
  imports Main "HOL-Library.Word"
begin

section \<open>JavaScript strings\<close>

text \<open>
  A TypeScript \<^verbatim>\<open>string\<close> is a sequence of UTF-16 code units; \<^verbatim>\<open>length\<close>,
  \<^verbatim>\<open>indexOf\<close>, \<^verbatim>\<open>slice\<close> and the index of a regular-expression match
  all count code units. A string is therefore a list of 16-bit words. \<open>js\<close> writes an
  ASCII literal.
\<close>

type_synonym jschar = "16 word"
type_synonym jsstring = "jschar list"

definition js :: "string \<Rightarrow> jsstring" where
  "js s = map (\<lambda>c. of_nat (of_char c)) s"

definition period :: jschar where
  "period = 0x2E"

definition slash :: jschar where
  "slash = 0x2F"

definition underscore :: jschar where
  "underscore = 0x5F"

text \<open>
  ECMAScript WhiteSpace and LineTerminator code points: what \<^verbatim>\<open>String.prototype.trim\<close>
  strips and what \<^verbatim>\<open>\s\<close> matches in a regular expression without the unicode flag.
\<close>

definition isWhiteSpace :: "jschar \<Rightarrow> bool" where
  "isWhiteSpace c =
     (c = 0x0009 \<or> c = 0x000A \<or> c = 0x000B \<or> c = 0x000C \<or> c = 0x000D \<or> c = 0x0020 \<or>
      c = 0x00A0 \<or> c = 0x1680 \<or> (0x2000 \<le> c \<and> c \<le> 0x200A) \<or> c = 0x2028 \<or>
      c = 0x2029 \<or> c = 0x202F \<or> c = 0x205F \<or> c = 0x3000 \<or> c = 0xFEFF)"

text \<open>
  \<^verbatim>\<open>s.lastIndexOf(c, pos)\<close> for a one-character search string: the position is clamped
  to \<open>0 .. length s - 1\<close>, the scan runs from there down to 0, and the answer is -1 when
  no position holds \<open>c\<close>. \<open>lastIndexBelow s c n\<close> scans the positions \<open>n - 1, ..., 0\<close>.
\<close>

fun lastIndexBelow :: "jsstring \<Rightarrow> jschar \<Rightarrow> nat \<Rightarrow> int" where
  "lastIndexBelow s c 0 = -1"
| "lastIndexBelow s c (Suc k) = (if s ! k = c then int k else lastIndexBelow s c k)"

definition lastIndexOf :: "jsstring \<Rightarrow> jschar \<Rightarrow> int \<Rightarrow> int" where
  "lastIndexOf s c pos =
     (let start = min (max pos 0) (int (length s) - 1)
      in lastIndexBelow s c (nat (start + 1)))"

text \<open>
  \<^verbatim>\<open>s.indexOf(c, pos)\<close>: the position is clamped to \<open>0 .. length s\<close>, the scan runs
  upwards from there, and the answer is -1 when no position holds \<open>c\<close>.
  \<open>firstIndexIn xs c k\<close> scans the suffix \<open>xs\<close> that starts at position \<open>k\<close>.
\<close>

fun firstIndexIn :: "jsstring \<Rightarrow> jschar \<Rightarrow> nat \<Rightarrow> int" where
  "firstIndexIn [] c k = -1"
| "firstIndexIn (x # xs) c k = (if x = c then int k else firstIndexIn xs c (Suc k))"

definition indexOf :: "jsstring \<Rightarrow> jschar \<Rightarrow> int \<Rightarrow> int" where
  "indexOf s c pos =
     (let start = nat (min (max pos 0) (int (length s)))
      in firstIndexIn (drop start s) c start)"

text \<open>
  \<^verbatim>\<open>s.slice(start, end)\<close>: a negative bound counts from the end, both bounds are clamped
  to \<open>0 .. length s\<close>, and the result is empty when the end is not after the start.
\<close>

definition slice :: "jsstring \<Rightarrow> int \<Rightarrow> int \<Rightarrow> jsstring" where
  "slice s start end =
     (let len = int (length s);
          from = (if start < 0 then max (len + start) 0 else min start len);
          to = (if end < 0 then max (len + end) 0 else min end len)
      in take (nat (max (to - from) 0)) (drop (nat from) s))"

definition trim :: "jsstring \<Rightarrow> jsstring" where
  "trim s = rev (dropWhile isWhiteSpace (rev (dropWhile isWhiteSpace s)))"

section \<open>PaperService.getSentence\<close>

text \<open>
  \<^verbatim>\<open>
  private getSentence(text: string, index: number): string {
    const start = text.lastIndexOf('.', index) + 1
    const end = text.indexOf('.', index) + 1
    return text.slice(start, end).trim()
  }
  \<close>
\<close>

definition getSentence :: "jsstring \<Rightarrow> int \<Rightarrow> jsstring" where
  "getSentence text index =
     (let start = lastIndexOf text period index + 1;
          end = indexOf text period index + 1
      in trim (slice text start end))"

text \<open>
  The containing sentence in the specification's words: it starts right after the nearest
  period before the match's start index (at the document start if there is none) and ends
  one past the next period after the match's start index (at the document end if there is
  none); surrounding whitespace is trimmed.
\<close>

definition sentenceStart :: "jsstring \<Rightarrow> nat \<Rightarrow> nat" where
  "sentenceStart text index =
     (case filter (\<lambda>p. text ! p = period) (rev [0..<min index (length text)]) of
        [] \<Rightarrow> 0
      | p # _ \<Rightarrow> p + 1)"

definition sentenceEnd :: "jsstring \<Rightarrow> nat \<Rightarrow> nat" where
  "sentenceEnd text index =
     (case filter (\<lambda>p. text ! p = period) [index..<length text] of
        [] \<Rightarrow> length text
      | p # _ \<Rightarrow> p + 1)"

definition containingSentence :: "jsstring \<Rightarrow> nat \<Rightarrow> jsstring" where
  "containingSentence text index =
     trim (take (sentenceEnd text index - sentenceStart text index)
             (drop (sentenceStart text index) text))"

section \<open>Errors, collaborator calls and configuration\<close>

text \<open>
  A thrown value (a rejected promise) is an \<open>error\<close> carrying its message. Every
  asynchronous operation is a function from the calls made so far to its outcome and the
  extended list of calls: \<open>Inl\<close> is a throw, \<open>Inr\<close> a normal return. The operations
  run one at a time (every call is awaited), so the calls form a sequence.
\<close>

datatype error = Error jsstring

datatype call =
    Search jsstring
  | NextPage
  | GetContent "jsstring option"
  | GetTextContent jsstring bool
  | PdfGetTextContent jsstring
  | Download jsstring jsstring
  | Close

type_synonym trace = "call list"

text \<open>
  One page of the result cursor: its results and its optional \<^verbatim>\<open>next\<close> function,
  whose call either rejects or resolves to the following response (possibly a falsy one).
\<close>

datatype 'r response = Response (results: "'r list") (nextPage: "'r nextResponse option")
and 'r nextResponse = Rejects error | Resolves "'r response option"

record author =
  name :: jsstring

record citation =
  citation_url :: "jsstring option"
  citation_count :: int

text \<open>
  \<^verbatim>\<open>IGoogleScholarResult\<close>. The source compares \<^verbatim>\<open>result.url\<close> with null, so the
  field is optional here; a result that is itself null or undefined is \<open>None\<close> in the
  cursor's result list.
\<close>

record googleScholarResult =
  title :: jsstring
  authors :: "author list"
  url :: "jsstring option"
  paperUrl :: jsstring
  citation :: citation
  description :: jsstring

record paperEntity =
  entity_title :: jsstring
  entity_authors :: "jsstring list"
  entity_url :: "jsstring option"
  entity_paperUrl :: jsstring
  citationUrl :: jsstring
  citationCount :: int
  entity_description :: jsstring

record paperWithAccessionEntity = paperEntity +
  accessionNumbers :: "jsstring list"

text \<open>\<^verbatim>\<open>IPaperMetadata\<close>: the title, the main URL and the source descriptor \<^verbatim>\<open>paper\<close>.\<close>

record paperSource =
  paper_type :: jsstring
  paper_url :: jsstring

record paperMetadata =
  meta_title :: jsstring
  meta_url :: jsstring
  paper :: paperSource

record paperServiceConfig =
  skipCaptcha :: bool
  processPdf :: bool

record foundItem =
  item_text :: jsstring
  sentences :: "jsstring list"

text \<open>
  The external collaborators, none of which is part of the repository: the result cursor,
  the rendering session (odysseus), the PDF extractor and the downloader. The outcome of a
  call may depend on every call made before it. \<open>regExp_matchAll pattern text\<close> stands for
  \<^verbatim>\<open>text.matchAll(new RegExp(pattern, 'gi'))\<close> of the language runtime: the
  matches in order, each with its matched literal \<^verbatim>\<open>match[0]\<close> and its
  \<^verbatim>\<open>match.index\<close>, or the SyntaxError of an ill-formed pattern.
\<close>

record collaborators =
  googleScholar_search :: "trace \<Rightarrow> jsstring \<Rightarrow> error + googleScholarResult option response option"
  odysseus_getContent :: "trace \<Rightarrow> jsstring option \<Rightarrow> error + jsstring"
  odysseus_getTextContent :: "trace \<Rightarrow> jsstring \<Rightarrow> bool \<Rightarrow> error + jsstring"
  odysseus_close :: "trace \<Rightarrow> error + unit"
  pdfService_getTextContent :: "trace \<Rightarrow> jsstring \<Rightarrow> error + jsstring"
  downloadService_download :: "trace \<Rightarrow> jsstring \<Rightarrow> jsstring \<Rightarrow> error + unit"
  regExp_matchAll :: "jsstring \<Rightarrow> jsstring \<Rightarrow> error + (jsstring \<times> nat) list"

section \<open>PaperService\<close>

text \<open>The optional logger is not modelled: its calls return nothing the code uses.\<close>

definition getWebContent ::
  "collaborators \<Rightarrow> paperServiceConfig \<Rightarrow> jsstring \<Rightarrow> trace \<Rightarrow> (error + jsstring) \<times> trace" where
  "getWebContent env config u tr =
     (odysseus_getTextContent env tr u (\<not> skipCaptcha config),
      tr @ [GetTextContent u (\<not> skipCaptcha config)])"

definition getPdfContent ::
  "collaborators \<Rightarrow> jsstring \<Rightarrow> trace \<Rightarrow> (error + jsstring) \<times> trace" where
  "getPdfContent env u tr = (pdfService_getTextContent env tr u, tr @ [PdfGetTextContent u])"

text \<open>
  The body of the \<^verbatim>\<open>try\<close> block of \<^verbatim>\<open>getTextContent\<close>: the outcome of the read
  it attempts, or \<open>None\<close> when neither branch is taken and control falls out of the block.
  \<^verbatim>\<open>
      if (paper.type === 'pdf') return await this.getPdfContent(paper.url)
      if (paper.url !== '') return await this.getWebContent(paper.url)
  \<close>
\<close>

definition sourceRead ::
  "collaborators \<Rightarrow> paperServiceConfig \<Rightarrow> paperSource \<Rightarrow> trace \<Rightarrow>
   (error + jsstring) option \<times> trace" where
  "sourceRead env config p tr =
     (if paper_type p = js ''pdf'' then
        (case getPdfContent env (paper_url p) tr of (r, tr') \<Rightarrow> (Some r, tr'))
      else if paper_url p \<noteq> [] then
        (case getWebContent env config (paper_url p) tr of (r, tr') \<Rightarrow> (Some r, tr'))
      else (None, tr))"

text \<open>
  \<^verbatim>\<open>
  public async getTextContent({ url, paper }: IPaperMetadata): Promise<string> {
    if (!this.config.processPdf) return url !== '' ? this.getWebContent(url) : ''
    try { ... } catch (error) { this.logger?.debug(...) }
    if (url === '') return ''
    this.logger?.debug(`Falling back to main url ${url}`)
    return this.getWebContent(url)
  }
  \<close>
\<close>

definition getTextContent ::
  "collaborators \<Rightarrow> paperServiceConfig \<Rightarrow> paperMetadata \<Rightarrow> trace \<Rightarrow> (error + jsstring) \<times> trace" where
  "getTextContent env config ref tr =
     (if \<not> processPdf config then
        (if meta_url ref \<noteq> [] then getWebContent env config (meta_url ref) tr else (Inr [], tr))
      else
        (case sourceRead env config (paper ref) tr of
           (Some (Inr content), tr') \<Rightarrow> (Inr content, tr')
         | (_, tr') \<Rightarrow>
             (if meta_url ref = [] then (Inr [], tr')
              else getWebContent env config (meta_url ref) tr')))"

text \<open>
  \<^verbatim>\<open>Map<string, string[]>\<close> keeps its keys in insertion order, and \<^verbatim>\<open>set\<close> on a
  key already present keeps the key's place: an association list.
\<close>

fun mapSet :: "('k \<times> 'v) list \<Rightarrow> 'k \<Rightarrow> 'v \<Rightarrow> ('k \<times> 'v) list" where
  "mapSet [] k v = [(k, v)]"
| "mapSet ((k', v') # m) k v = (if k' = k then (k, v) # m else (k', v') # mapSet m k v)"

text \<open>
  The loop of \<^verbatim>\<open>findInPaper\<close> over the matches:
  \<^verbatim>\<open>
      for (const match of matches) {
        const sentence = this.getSentence(paperContent, match.index)
        const currentSentences = foundItems.get(match[0]) || []
        currentSentences.push(sentence)
        foundItems.set(match[0], currentSentences)
      }
  \<close>
\<close>

fun collectMatches ::
  "jsstring \<Rightarrow> (jsstring \<times> nat) list \<Rightarrow> (jsstring \<times> jsstring list) list \<Rightarrow>
   (jsstring \<times> jsstring list) list" where
  "collectMatches paperContent [] foundItems = foundItems"
| "collectMatches paperContent ((literal, index) # matches) foundItems =
     (let sentence = getSentence paperContent (int index);
          currentSentences = (case map_of foundItems literal of None \<Rightarrow> [] | Some ss \<Rightarrow> ss)
      in collectMatches paperContent matches
           (mapSet foundItems literal (currentSentences @ [sentence])))"

definition findInPaper ::
  "collaborators \<Rightarrow> paperServiceConfig \<Rightarrow> paperMetadata \<Rightarrow> jsstring \<Rightarrow> trace \<Rightarrow>
   (error + foundItem list) \<times> trace" where
  "findInPaper env config ref findRegex tr =
     (case getTextContent env config ref tr of
        (Inl e, tr') \<Rightarrow> (Inr [], tr')
      | (Inr paperContent, tr') \<Rightarrow>
          (case regExp_matchAll env findRegex paperContent of
             Inl e \<Rightarrow> (Inr [], tr')
           | Inr matches \<Rightarrow>
               (Inr (map (\<lambda>(t, ss). \<lparr>item_text = t, sentences = ss\<rparr>)
                       (collectMatches paperContent matches [])), tr')))"

text \<open>\<^verbatim>\<open>title.replace(/[\s/]/g, '_')\<close>: every character of the class is replaced.\<close>

fun replaceWhitespaceAndSlash :: "jsstring \<Rightarrow> jsstring" where
  "replaceWhitespaceAndSlash [] = []"
| "replaceWhitespaceAndSlash (c # cs) =
     (if isWhiteSpace c \<or> c = slash then underscore else c) # replaceWhitespaceAndSlash cs"

text \<open>
  \<^verbatim>\<open>
  public async download({ title, paper }: IPaperMetadata, outputDir: string): Promise<void> {
    if (paper.type !== 'pdf') { this.logger?.debug(...); return }
    const filePath = `${outputDir}/${title.replace(/[\s/]/g, '_')}.${paper.type}`
    await this.downloadService.download(paper.url, filePath)
  }
  \<close>
\<close>

definition download ::
  "collaborators \<Rightarrow> paperMetadata \<Rightarrow> jsstring \<Rightarrow> trace \<Rightarrow> (error + unit) \<times> trace" where
  "download env ref outputDir tr =
     (if paper_type (paper ref) \<noteq> js ''pdf'' then (Inr (), tr)
      else
        (let filePath = outputDir @ [slash] @ replaceWhitespaceAndSlash (meta_title ref) @
                        [period] @ paper_type (paper ref)
         in (downloadService_download env tr (paper_url (paper ref)) filePath,
             tr @ [Download (paper_url (paper ref)) filePath])))"

section \<open>SearchService\<close>

text \<open>
  The inner loop of \<^verbatim>\<open>fetchPapers\<close> over one page. \<open>maxItems\<close> is the integer count
  given on the command line; as a condition it is true when it is not 0. An entity is kept
  when it is truthy: the callers' transforms return an object or null, \<open>None\<close> here.
  \<^verbatim>\<open>
      for (const result of response.results) {
        const entity = await mapResult(result)
        if (entity) entities.push(entity)
        if (maxItems && entities.length >= maxItems) break
      }
  \<close>
\<close>

fun forLoop ::
  "int \<Rightarrow> ('r \<Rightarrow> trace \<Rightarrow> (error + 't option) \<times> trace) \<Rightarrow> 'r list \<Rightarrow> 't list \<Rightarrow> trace \<Rightarrow>
   (error + 't list) \<times> trace" where
  "forLoop maxItems mapResult [] entities tr = (Inr entities, tr)"
| "forLoop maxItems mapResult (result # rest) entities tr =
     (case mapResult result tr of
        (Inl e, tr') \<Rightarrow> (Inl e, tr')
      | (Inr entity, tr') \<Rightarrow>
          (let entities' = (case entity of None \<Rightarrow> entities | Some x \<Rightarrow> entities @ [x])
           in if maxItems \<noteq> 0 \<and> maxItems \<le> int (length entities') then (Inr entities', tr')
              else forLoop maxItems mapResult rest entities' tr'))"

text \<open>
  \<^verbatim>\<open>
    while (response && (!maxItems || entities.length < maxItems)) {
      for (...) { ... }
      if (!response.next) break
      response = await response.next()
    }
  \<close>
\<close>

fun whileLoop ::
  "int \<Rightarrow> ('r \<Rightarrow> trace \<Rightarrow> (error + 't option) \<times> trace) \<Rightarrow> 'r response option \<Rightarrow> 't list \<Rightarrow>
   trace \<Rightarrow> (error + 't list) \<times> trace" where
  "whileLoop maxItems mapResult None entities tr = (Inr entities, tr)"
| "whileLoop maxItems mapResult (Some (Response rs nxt)) entities tr =
     (if maxItems = 0 \<or> int (length entities) < maxItems then
        (case forLoop maxItems mapResult rs entities tr of
           (Inl e, tr') \<Rightarrow> (Inl e, tr')
         | (Inr entities', tr') \<Rightarrow>
             (case nxt of
                None \<Rightarrow> (Inr entities', tr')
              | Some (Rejects e) \<Rightarrow> (Inl e, tr' @ [NextPage])
              | Some (Resolves response') \<Rightarrow>
                  whileLoop maxItems mapResult response' entities' (tr' @ [NextPage])))
      else (Inr entities, tr))"

text \<open>
  \<^verbatim>\<open>
    const entities: T[] = []
    let response = await this.googleScholar.search(keywords)
    while (...) { ... }
    await this.odysseus.close()
    return entities
  \<close>
\<close>

definition fetchPapers ::
  "collaborators \<Rightarrow> jsstring \<Rightarrow> int \<Rightarrow>
   (googleScholarResult option \<Rightarrow> trace \<Rightarrow> (error + 't option) \<times> trace) \<Rightarrow> trace \<Rightarrow>
   (error + 't list) \<times> trace" where
  "fetchPapers env keywords maxItems mapResult tr =
     (case googleScholar_search env tr keywords of
        Inl e \<Rightarrow> (Inl e, tr @ [Search keywords])
      | Inr response \<Rightarrow>
          (case whileLoop maxItems mapResult response [] (tr @ [Search keywords]) of
             (Inl e, tr') \<Rightarrow> (Inl e, tr')
           | (Inr entities, tr') \<Rightarrow>
               (case odysseus_close env tr' of
                  Inl e \<Rightarrow> (Inl e, tr' @ [Close])
                | Inr _ \<Rightarrow> (Inr entities, tr' @ [Close]))))"

text \<open>
  \<^verbatim>\<open>content.match(/PRJ[A-Z]{2}[0-9]{6}/g)\<close>: the scan tries every position from the
  left, takes the eleven characters of a match and goes on after them; the answer is null
  when nothing matched and the array of the matched strings otherwise.
\<close>

definition isUpper :: "jschar \<Rightarrow> bool" where
  "isUpper c = (0x41 \<le> c \<and> c \<le> 0x5A)"

definition isDigit :: "jschar \<Rightarrow> bool" where
  "isDigit c = (0x30 \<le> c \<and> c \<le> 0x39)"

definition accessionPrefix :: "jsstring \<Rightarrow> bool" where
  "accessionPrefix s =
     (11 \<le> length s \<and> take 3 s = js ''PRJ'' \<and> list_all isUpper (take 2 (drop 3 s)) \<and>
      list_all isDigit (take 6 (drop 5 s)))"

function matchAccessions :: "jsstring \<Rightarrow> jsstring list" where
  "matchAccessions [] = []"
| "matchAccessions (c # cs) =
     (if accessionPrefix (c # cs) then take 11 (c # cs) # matchAccessions (drop 11 (c # cs))
      else matchAccessions cs)"
  by pat_completeness auto
termination
  by (relation "measure length") auto

text \<open>
  \<^verbatim>\<open>
  private async extractAccessionNumbers(result: IGoogleScholarResult): Promise<string[] | null> {
    const content = await this.odysseus.getContent(result.url)
    return content.match(/PRJ[A-Z]{2}[0-9]{6}/g) ?? null
  }
  \<close>
\<close>

definition extractAccessionNumbers ::
  "collaborators \<Rightarrow> googleScholarResult \<Rightarrow> trace \<Rightarrow> (error + jsstring list option) \<times> trace" where
  "extractAccessionNumbers env result tr =
     (case odysseus_getContent env tr (url result) of
        Inl e \<Rightarrow> (Inl e, tr @ [GetContent (url result)])
      | Inr content \<Rightarrow>
          (Inr (case matchAccessions content of [] \<Rightarrow> None | m # ms \<Rightarrow> Some (m # ms)),
           tr @ [GetContent (url result)]))"

text \<open>
  The transform of \<^verbatim>\<open>searchPapers\<close>. It reads \<^verbatim>\<open>result.title\<close> unguarded, which is
  a TypeError on a null result.
\<close>

definition searchPapers_mapResult ::
  "googleScholarResult option \<Rightarrow> trace \<Rightarrow> (error + paperEntity option) \<times> trace" where
  "searchPapers_mapResult result tr =
     (case result of
        None \<Rightarrow> (Inl (Error (js ''TypeError'')), tr)
      | Some r \<Rightarrow>
          (Inr (Some \<lparr>entity_title = title r,
                      entity_authors = map name (authors r),
                      entity_url = url r,
                      entity_paperUrl = paperUrl r,
                      citationUrl = (case citation_url (citation r) of None \<Rightarrow> [] | Some u \<Rightarrow> u),
                      citationCount = citation_count (citation r),
                      entity_description = description r\<rparr>), tr))"

definition searchPapers ::
  "collaborators \<Rightarrow> jsstring \<Rightarrow> int \<Rightarrow> trace \<Rightarrow> (error + paperEntity list) \<times> trace" where
  "searchPapers env keywords maxItems tr = fetchPapers env keywords maxItems searchPapers_mapResult tr"

text \<open>
  The transform of \<^verbatim>\<open>searchPapersWithAccessionNumbers\<close>:
  \<^verbatim>\<open>
      if (!result || result.url == null) return null
      const accessionNumbers = await this.extractAccessionNumbers(result)
      if (!accessionNumbers) return null
      return { title: result.title, accessionNumbers, ... }
  \<close>
\<close>

definition searchPapersWithAccessionNumbers_mapResult ::
  "collaborators \<Rightarrow> googleScholarResult option \<Rightarrow> trace \<Rightarrow>
   (error + paperWithAccessionEntity option) \<times> trace" where
  "searchPapersWithAccessionNumbers_mapResult env result tr =
     (case result of
        None \<Rightarrow> (Inr None, tr)
      | Some r \<Rightarrow>
          (if url r = None then (Inr None, tr)
           else
             (case extractAccessionNumbers env r tr of
                (Inl e, tr') \<Rightarrow> (Inl e, tr')
              | (Inr None, tr') \<Rightarrow> (Inr None, tr')
              | (Inr (Some numbers), tr') \<Rightarrow>
                  (Inr (Some \<lparr>entity_title = title r,
                              entity_authors = map name (authors r),
                              entity_url = url r,
                              entity_paperUrl = paperUrl r,
                              citationUrl = (case citation_url (citation r) of None \<Rightarrow> [] | Some u \<Rightarrow> u),
                              citationCount = citation_count (citation r),
                              entity_description = description r,
                              accessionNumbers = numbers\<rparr>), tr'))))"

definition searchPapersWithAccessionNumbers ::
  "collaborators \<Rightarrow> jsstring \<Rightarrow> int \<Rightarrow> trace \<Rightarrow>
   (error + paperWithAccessionEntity list) \<times> trace" where
  "searchPapersWithAccessionNumbers env keywords maxItems tr =
     fetchPapers env keywords maxItems (searchPapersWithAccessionNumbers_mapResult env) tr"

section \<open>Reference notions and sample inputs\<close>

text \<open>The distinct elements of a list, in the order in which each is first seen.\<close>

fun firstSeen :: "'a list \<Rightarrow> 'a list" where
  "firstSeen [] = []"
| "firstSeen (x # xs) = x # filter (\<lambda>y. y \<noteq> x) (firstSeen xs)"

text \<open>The sentences of the occurrences of one literal, first to last.\<close>

definition sentencesOf :: "jsstring \<Rightarrow> (jsstring \<times> nat) list \<Rightarrow> jsstring \<Rightarrow> jsstring list" where
  "sentencesOf paperContent matches literal =
     map (\<lambda>m. getSentence paperContent (int (snd m))) (filter (\<lambda>m. fst m = literal) matches)"

definition exampleResult :: "jsstring option \<Rightarrow> googleScholarResult" where
  "exampleResult u =
     \<lparr>title = js ''T'', authors = [\<lparr>name = js ''A''\<rparr>], url = u, paperUrl = [],
      citation = \<lparr>citation_url = None, citation_count = 0\<rparr>, description = []\<rparr>"

text \<open>
  A cursor of two pages: a result with a URL and one without on the first page, one more
  result with a URL on the second, which has no next page.
\<close>

definition exampleCursor :: "googleScholarResult option response" where
  "exampleCursor =
     Response [Some (exampleResult (Some (js ''https://a''))), Some (exampleResult None)]
       (Some (Resolves (Some (Response [Some (exampleResult (Some (js ''https://b'')))] None))))"

text \<open>
  Sample collaborators: the renderer answers every URL, the PDF extractor fails with a
  network error, and the pattern /gene/gi finds "Gene" at the indices 0 and 8 of the
  rendered text.
\<close>

definition exampleCollaborators :: collaborators where
  "exampleCollaborators =
     \<lparr>googleScholar_search = (\<lambda>tr keywords. Inr (Some exampleCursor)),
      odysseus_getContent =
        (\<lambda>tr u. Inr (js ''CRISPR edits genome. PRJNA123456 was used. Confirmed.'')),
      odysseus_getTextContent = (\<lambda>tr u solveCaptcha. Inr (js ''Gene A. Gene B.'')),
      odysseus_close = (\<lambda>tr. Inr ()),
      pdfService_getTextContent = (\<lambda>tr u. Inl (Error (js ''network error''))),
      downloadService_download = (\<lambda>tr u filePath. Inr ()),
      regExp_matchAll = (\<lambda>pattern content. Inr [(js ''Gene'', 0), (js ''Gene'', 8)])\<rparr>"


definition examplePaper :: paperMetadata where
  "examplePaper =
     \<lparr>meta_title = js ''A paper'', meta_url = js ''https://x'',
      paper = \<lparr>paper_type = js ''pdf'', paper_url = js ''https://x/p.pdf''\<rparr>\<rparr>"

definition legacyConfig :: paperServiceConfig where
  "legacyConfig = \<lparr>skipCaptcha = False, processPdf = False\<rparr>"

definition sourceAwareConfig :: paperServiceConfig where
  "sourceAwareConfig = \<lparr>skipCaptcha = False, processPdf = True\<rparr>"


text \<open>A result that is null, or whose URL is null or absent.\<close>

definition hasNoUrl :: "googleScholarResult option \<Rightarrow> bool" where
  "hasNoUrl result = (case result of None \<Rightarrow> True | Some r \<Rightarrow> url r = None)"

fun withoutResults :: "('r \<Rightarrow> bool) \<Rightarrow> 'r response option \<Rightarrow> 'r response option" where
  "withoutResults p None = None"
| "withoutResults p (Some (Response rs nxt)) =
     Some (Response (filter (\<lambda>r. \<not> p r) rs)
       (case nxt of
          None \<Rightarrow> None
        | Some (Rejects e) \<Rightarrow> Some (Rejects e)
        | Some (Resolves response') \<Rightarrow> Some (Resolves (withoutResults p response'))))"



text \<open>A rendering session whose pages hold no accession number.\<close>

definition plainCollaborators :: collaborators where
  "plainCollaborators =
     exampleCollaborators\<lparr>odysseus_getContent := (\<lambda>tr u. Inr (js ''No identifiers here.''))\<rparr>"



text \<open>
  The occurrences of the accession pattern in a content: the eleven characters at every
  position where PRJ, two uppercase letters and six digits stand, from left to right.
\<close>

definition occurrences :: "jsstring \<Rightarrow> jsstring list" where
  "occurrences content =
     map (\<lambda>i. take 11 (drop i content))
       (filter (\<lambda>i. accessionPrefix (drop i content)) [0..<length content])"

text \<open>A rendering session whose pages hold two accession numbers side by side.\<close>

definition adjacentCollaborators :: collaborators where
  "adjacentCollaborators =
     exampleCollaborators\<lparr>odysseus_getContent := (\<lambda>tr u. Inr (js ''id PRJEB000001PRJNA999999x''))\<rparr>"

definition exampleEntity :: paperEntity where
  "exampleEntity =
     \<lparr>entity_title = js ''T'', entity_authors = [js ''A''], entity_url = Some (js ''https://a''),
      entity_paperUrl = [], citationUrl = [], citationCount = 0, entity_description = []\<rparr>"

section \<open>The containing sentence\<close>

lemma lastIndexBelow_filter:
  "lastIndexBelow s c n + 1 =
     (case filter (\<lambda>p. s ! p = c) (rev [0..<n]) of [] \<Rightarrow> 0 | p # _ \<Rightarrow> int p + 1)"
  by (induction n) simp_all

lemma firstIndexIn_filter:
  "k \<le> length s \<Longrightarrow>
   firstIndexIn (drop k s) c k + 1 =
     (case filter (\<lambda>p. s ! p = c) [k..<length s] of [] \<Rightarrow> 0 | p # _ \<Rightarrow> int p + 1)"
proof (induction "length s - k" arbitrary: k)
  case 0
  then show ?case by simp
next
  case (Suc n)
  then have k: "k < length s" by simp
  have d: "drop k s = s ! k # drop (Suc k) s"
    using k by (simp add: Cons_nth_drop_Suc)
  have u: "[k..<length s] = k # [Suc k..<length s]"
    using k by (simp add: upt_conv_Cons)
  from Suc(1) [of "Suc k"] Suc(2) k
  have r: "firstIndexIn (drop (Suc k) s) c (Suc k) + 1 =
     (case filter (\<lambda>p. s ! p = c) [Suc k..<length s] of [] \<Rightarrow> 0 | p # _ \<Rightarrow> int p + 1)"
    by simp
  show ?case
    by (simp only: d u firstIndexIn.simps filter.simps list.case r split: if_splits) simp
qed

lemma sentenceStart_le: "sentenceStart text index \<le> length text"
proof (cases "filter (\<lambda>p. text ! p = period) (rev [0..<min index (length text)])")
  case Nil
  then show ?thesis by (simp add: sentenceStart_def)
next
  case (Cons p ps)
  then have "p \<in> set (filter (\<lambda>p. text ! p = period) (rev [0..<min index (length text)]))"
    by simp
  then have "p < length text" by simp
  with Cons show ?thesis by (simp add: sentenceStart_def)
qed

lemma sentenceEnd_le: "sentenceEnd text index \<le> length text"
proof (cases "filter (\<lambda>p. text ! p = period) [index..<length text]")
  case Nil
  then show ?thesis by (simp add: sentenceEnd_def)
next
  case (Cons p ps)
  then have "p \<in> set (filter (\<lambda>p. text ! p = period) [index..<length text])"
    by simp
  then have "p < length text" by simp
  with Cons show ?thesis by (simp add: sentenceEnd_def)
qed

text \<open>
  Where a period stands at or after the match and the match does not itself start at a
  period, the source computes the containing sentence of the specification.
\<close>

lemma getSentence_period_follows:
  assumes "\<exists>q. index \<le> q \<and> q < length text \<and> text ! q = period"
    and "text ! index \<noteq> period"
  shows "getSentence text (int index) = containingSentence text index"
proof -
  from assms(1) obtain q where q: "index \<le> q" "q < length text" "text ! q = period" by blast
  then have i: "index < length text" by simp
  have "nat (min (max (int index) 0) (int (length text) - 1) + 1) = Suc index"
    using i by simp
  then have "lastIndexOf text period (int index) = lastIndexBelow text period (Suc index)"
    by (simp only: lastIndexOf_def Let_def)
  also have "\<dots> = lastIndexBelow text period index"
    using assms(2) by simp
  finally have "lastIndexOf text period (int index) + 1 = lastIndexBelow text period index + 1"
    by simp
  also have "\<dots> = int (sentenceStart text index)"
  proof -
    have m: "min index (length text) = index" using i by simp
    show ?thesis
      by (simp only: lastIndexBelow_filter sentenceStart_def m) (simp split: list.splits)
  qed
  finally have s: "lastIndexOf text period (int index) + 1 = int (sentenceStart text index)" .
  have "q \<in> set (filter (\<lambda>p. text ! p = period) [index..<length text])"
    using q by simp
  then obtain p ps where ne: "filter (\<lambda>p. text ! p = period) [index..<length text] = p # ps"
    by (cases "filter (\<lambda>p. text ! p = period) [index..<length text]") auto
  have "nat (min (max (int index) 0) (int (length text))) = index"
    using i by simp
  then have "indexOf text period (int index) + 1 = firstIndexIn (drop index text) period index + 1"
    by (simp only: indexOf_def Let_def)
  also have "\<dots> = int (sentenceEnd text index)"
    using i by (simp only: firstIndexIn_filter [OF less_imp_le] sentenceEnd_def ne list.case)
  finally have e: "indexOf text period (int index) + 1 = int (sentenceEnd text index)" .
  have "slice text (int (sentenceStart text index)) (int (sentenceEnd text index)) =
        take (sentenceEnd text index - sentenceStart text index)
          (drop (sentenceStart text index) text)"
  proof -
    have el: "sentenceEnd text index \<le> length text" by (rule sentenceEnd_le)
    have sl: "sentenceStart text index \<le> length text" by (rule sentenceStart_le)
    from el sl show ?thesis
      by (simp add: slice_def Let_def min_def max_def nat_diff_distrib')
  qed
  then show ?thesis
    by (simp only: getSentence_def containingSentence_def s e Let_def)
qed

text \<open>
  C4. On a text with no period at or after the match, \<^verbatim>\<open>indexOf\<close> answers -1, the end
  bound becomes 0 and the slice is empty: for the text "CRISPR works" and a match at index
  0 the source yields the empty string, where the sentence described by the specification
  is the whole text.
\<close>

theorem getSentence_no_following_period:
  "getSentence (js ''CRISPR works'') 0 = [] \<and>
   containingSentence (js ''CRISPR works'') 0 = js ''CRISPR works''"
  by (simp add: getSentence_def containingSentence_def sentenceStart_def sentenceEnd_def
      lastIndexOf_def indexOf_def slice_def trim_def js_def period_def isWhiteSpace_def
      upt_rec)

section \<open>Content extraction\<close>

text \<open>
  C6. In legacy mode (PDF processing disabled) the text of a reference with a non-empty
  main URL is the outcome of the renderer for that URL, obtained with that single call,
  and the text for an empty main URL is the empty string, with no call; the source
  descriptor has no influence.
\<close>

theorem getTextContent_legacy:
  assumes "\<not> processPdf config"
  shows "getTextContent env config ref tr =
           (if meta_url ref = [] then (Inr [], tr)
            else (odysseus_getTextContent env tr (meta_url ref) (\<not> skipCaptcha config),
                  tr @ [GetTextContent (meta_url ref) (\<not> skipCaptcha config)])) \<and>
         getTextContent env config (ref\<lparr>paper := p\<rparr>) tr = getTextContent env config ref tr"
  using assms by (simp add: getTextContent_def getWebContent_def)

theorem getTextContent_legacy_witness:
  "getTextContent exampleCollaborators legacyConfig examplePaper [] =
     (Inr (js ''Gene A. Gene B.''), [GetTextContent (js ''https://x'') True]) \<and>
   getTextContent exampleCollaborators legacyConfig
     (examplePaper\<lparr>paper := \<lparr>paper_type = js ''html'', paper_url = []\<rparr>\<rparr>) [] =
     (Inr (js ''Gene A. Gene B.''), [GetTextContent (js ''https://x'') True])"
  using getTextContent_legacy [of legacyConfig exampleCollaborators
      examplePaper "[]" "\<lparr>paper_type = js ''html'', paper_url = []\<rparr>"]
  by (simp add: exampleCollaborators_def examplePaper_def legacyConfig_def js_def)

lemma sourceRead_throws:
  assumes "if paper_type p = js ''pdf''
           then pdfService_getTextContent env tr (paper_url p) = Inl e
           else paper_url p \<noteq> [] \<and>
                odysseus_getTextContent env tr (paper_url p) (\<not> skipCaptcha config) = Inl e"
  shows "sourceRead env config p tr =
           (Some (Inl e),
            tr @ [if paper_type p = js ''pdf'' then PdfGetTextContent (paper_url p)
                  else GetTextContent (paper_url p) (\<not> skipCaptcha config)])"
  using assms by (auto simp: sourceRead_def getPdfContent_def getWebContent_def split: if_splits)

text \<open>
  C3. In source-aware mode, when the read of the source throws (the PDF extraction for a
  source of kind pdf, the rendering of the non-empty source URL otherwise), the operation
  continues as legacy mode does for the same reference, after the failed call: it renders
  the main URL, or yields the empty text when the main URL is empty. With a renderer whose
  answer does not depend on the earlier calls the result is the legacy-mode result.
\<close>

theorem getTextContent_source_failure:
  assumes "processPdf config"
    and "if paper_type (paper ref) = js ''pdf''
         then pdfService_getTextContent env tr (paper_url (paper ref)) = Inl e
         else paper_url (paper ref) \<noteq> [] \<and>
              odysseus_getTextContent env tr (paper_url (paper ref)) (\<not> skipCaptcha config) = Inl e"
  shows "getTextContent env config ref tr =
           getTextContent env (config\<lparr>processPdf := False\<rparr>) ref
             (tr @ [if paper_type (paper ref) = js ''pdf''
                    then PdfGetTextContent (paper_url (paper ref))
                    else GetTextContent (paper_url (paper ref)) (\<not> skipCaptcha config)]) \<and>
         ((\<forall>t t' u b. odysseus_getTextContent env t u b = odysseus_getTextContent env t' u b) \<longrightarrow>
          fst (getTextContent env config ref tr) =
          fst (getTextContent env (config\<lparr>processPdf := False\<rparr>) ref tr))"
proof -
  let ?c = "if paper_type (paper ref) = js ''pdf'' then PdfGetTextContent (paper_url (paper ref))
            else GetTextContent (paper_url (paper ref)) (\<not> skipCaptcha config)"
  have sr: "sourceRead env config (paper ref) tr = (Some (Inl e), tr @ [?c])"
    using assms(2) by (rule sourceRead_throws)
  have a: "getTextContent env config ref tr =
           getTextContent env (config\<lparr>processPdf := False\<rparr>) ref (tr @ [?c])"
    using assms(1) by (simp add: getTextContent_def sr getWebContent_def)
  have b: "fst (getTextContent env config ref tr) =
           fst (getTextContent env (config\<lparr>processPdf := False\<rparr>) ref tr)"
    if h: "\<forall>t t' u b. odysseus_getTextContent env t u b = odysseus_getTextContent env t' u b"
  proof -
    have "fst (getTextContent env (config\<lparr>processPdf := False\<rparr>) ref (tr @ [?c])) =
          fst (getTextContent env (config\<lparr>processPdf := False\<rparr>) ref tr)"
      using h by (simp add: getTextContent_def getWebContent_def)
    with a show ?thesis by simp
  qed
  from a b show ?thesis by blast
qed

theorem getTextContent_source_failure_witness:
  "getTextContent exampleCollaborators sourceAwareConfig examplePaper [] =
     (Inr (js ''Gene A. Gene B.''),
      [PdfGetTextContent (js ''https://x/p.pdf''), GetTextContent (js ''https://x'') True]) \<and>
   fst (getTextContent exampleCollaborators sourceAwareConfig examplePaper []) =
   fst (getTextContent exampleCollaborators legacyConfig examplePaper [])"
proof -
  have p: "processPdf sourceAwareConfig"
    by (simp add: sourceAwareConfig_def)
  have f: "if paper_type (paper examplePaper) = js ''pdf''
           then pdfService_getTextContent exampleCollaborators [] (paper_url (paper examplePaper)) =
                Inl (Error (js ''network error''))
           else paper_url (paper examplePaper) \<noteq> [] \<and>
                odysseus_getTextContent exampleCollaborators [] (paper_url (paper examplePaper))
                  (\<not> skipCaptcha sourceAwareConfig) = Inl (Error (js ''network error''))"
    by (simp add: examplePaper_def exampleCollaborators_def)
  have l: "sourceAwareConfig\<lparr>processPdf := False\<rparr> = legacyConfig"
    by (simp add: sourceAwareConfig_def legacyConfig_def)
  have r: "getTextContent exampleCollaborators legacyConfig examplePaper tr =
           (Inr (js ''Gene A. Gene B.''), tr @ [GetTextContent (js ''https://x'') True])" for tr
    by (simp add: getTextContent_def getWebContent_def exampleCollaborators_def examplePaper_def
        legacyConfig_def js_def)
  have k: "paper_type (paper examplePaper) = js ''pdf''"
    "paper_url (paper examplePaper) = js ''https://x/p.pdf''"
    by (simp_all add: examplePaper_def)
  have h: "\<forall>t t' u b. odysseus_getTextContent exampleCollaborators t u b =
                      odysseus_getTextContent exampleCollaborators t' u b"
    by (simp add: exampleCollaborators_def)
  from getTextContent_source_failure [OF p f] h show ?thesis
    by (simp add: l r k)
qed




section \<open>Conditional download\<close>

text \<open>
  C8. The download operation makes no call at all when the source descriptor's kind is not
  pdf. Otherwise it makes exactly one call, to the downloader, for the source URL and the
  destination path made of the output directory, a slash, the title with every whitespace
  character and every slash replaced by an underscore, a dot and the source's kind, which
  is pdf; the outcome of that call is the operation's.
\<close>

theorem download_only_pdf:
  "download env ref outputDir tr =
     (if paper_type (paper ref) = js ''pdf'' then
        (downloadService_download env tr (paper_url (paper ref))
           (outputDir @ js ''/'' @
            map (\<lambda>c. if isWhiteSpace c \<or> c = slash then underscore else c) (meta_title ref) @
            js ''.pdf''),
         tr @ [Download (paper_url (paper ref))
                 (outputDir @ js ''/'' @
                  map (\<lambda>c. if isWhiteSpace c \<or> c = slash then underscore else c) (meta_title ref) @
                  js ''.pdf'')])
      else (Inr (), tr))"
proof -
  have m: "replaceWhitespaceAndSlash t =
           map (\<lambda>c. if isWhiteSpace c \<or> c = slash then underscore else c) t" for t
    by (induction t) simp_all
  have p: "js ''.pdf'' = [period] @ js ''pdf''" "js ''/'' = [slash]"
    by (simp_all add: js_def period_def slash_def)
  show ?thesis
    by (simp add: download_def m p Let_def)
qed

section \<open>In-text search\<close>

lemma mapSet_keys:
  "map fst (mapSet m k v) = (if k \<in> fst ` set m then map fst m else map fst m @ [k])"
  by (induction m) (auto simp: image_iff, force+)

lemma mapSet_map_of: "map_of (mapSet m k v) = (map_of m)(k \<mapsto> v)"
  by (induction m) (auto simp: fun_eq_iff)

lemma set_firstSeen: "set (firstSeen xs) = set xs"
  by (induction xs) auto

lemma distinct_firstSeen: "distinct (firstSeen xs)"
  by (induction xs) (auto simp: set_firstSeen)

lemma collectMatches_keys:
  "map fst (collectMatches c ms acc) =
     map fst acc @ filter (\<lambda>k. k \<notin> fst ` set acc) (firstSeen (map fst ms))"
proof (induction ms arbitrary: acc)
  case Nil
  show ?case by simp
next
  case (Cons m ms)
  obtain l i where m: "m = (l, i)" by (cases m)
  show ?case
  proof (cases "l \<in> fst ` set acc")
    case True
    have "filter (\<lambda>k. k \<notin> fst ` set acc) (filter (\<lambda>y. y \<noteq> l) (firstSeen (map fst ms))) =
          filter (\<lambda>k. k \<notin> fst ` set acc) (firstSeen (map fst ms))"
      using True by (auto intro!: filter_cong)
    moreover have "fst ` set (mapSet acc l v) = fst ` set acc" for v
      using mapSet_keys [of acc l v] True by (metis list.set_map)
    ultimately show ?thesis
      using True by (simp add: m Cons.IH mapSet_keys Let_def)
  next
    case False
    have s: "fst ` set (mapSet acc l v) = insert l (fst ` set acc)" for v
      using mapSet_keys [of acc l v] False
      by (metis Un_insert_right append_Nil2 list.set_map list.simps(15) set_append)
    have "filter (\<lambda>k. k \<notin> insert l (fst ` set acc)) (firstSeen (map fst ms)) =
          filter (\<lambda>k. k \<notin> fst ` set acc) (filter (\<lambda>y. y \<noteq> l) (firstSeen (map fst ms)))"
      by (auto intro!: filter_cong)
    then show ?thesis
      using False by (simp add: m Cons.IH mapSet_keys Let_def s)
  qed
qed

lemma collectMatches_map_of:
  "map_of (collectMatches c ms acc) k =
     (if k \<in> fst ` set acc \<union> fst ` set ms
      then Some ((case map_of acc k of None \<Rightarrow> [] | Some ss \<Rightarrow> ss) @ sentencesOf c ms k)
      else None)"
proof (induction ms arbitrary: acc)
  case Nil
  show ?case
    by (auto simp: sentencesOf_def map_of_eq_None_iff split: option.splits)
next
  case (Cons m ms)
  obtain l i where m: "m = (l, i)" by (cases m)
  have s: "fst ` set (mapSet acc l v) = insert l (fst ` set acc)" for v
    using mapSet_keys [of acc l v]
    by (metis (no_types, lifting) Un_insert_right append_Nil2 insert_absorb list.set_map
        list.simps(15) set_append)
  show ?case
    by (auto simp: m Cons.IH Let_def s mapSet_map_of sentencesOf_def map_of_eq_None_iff
        split: option.splits)
qed

lemma alist_by_keys:
  assumes "distinct (map fst xs)"
  shows "xs = map (\<lambda>k. (k, the (map_of xs k))) (map fst xs)"
proof -
  have "(fst p, the (map_of xs (fst p))) = p" if "p \<in> set xs" for p
  proof -
    from that have "(fst p, snd p) \<in> set xs" by simp
    with assms have "map_of xs (fst p) = Some (snd p)" by (rule map_of_is_SomeI)
    then show ?thesis by simp
  qed
  then have "map (\<lambda>p. (fst p, the (map_of xs (fst p)))) xs = xs"
    by (simp add: map_idI)
  then show ?thesis by (simp add: comp_def)
qed

lemma collectMatches_grouped:
  "collectMatches c ms [] = map (\<lambda>l. (l, sentencesOf c ms l)) (firstSeen (map fst ms))"
proof -
  have k: "map fst (collectMatches c ms []) = firstSeen (map fst ms)"
    by (simp add: collectMatches_keys)
  then have "distinct (map fst (collectMatches c ms []))"
    by (simp add: distinct_firstSeen)
  from alist_by_keys [OF this]
  have "collectMatches c ms [] =
        map (\<lambda>k. (k, the (map_of (collectMatches c ms []) k))) (firstSeen (map fst ms))"
    by (simp add: k)
  also have "\<dots> = map (\<lambda>l. (l, sentencesOf c ms l)) (firstSeen (map fst ms))"
    by (rule map_cong) (auto simp: collectMatches_map_of set_firstSeen)
  finally show ?thesis .
qed

text \<open>
  C5. When the text is extracted and the pattern compiles, the found items are exactly one
  per distinct matched literal, in the order in which the literals are first seen, and the
  sentence list of each holds the sentence of every occurrence of that literal, first to
  last, duplicates included. The matches themselves are those of the language runtime.
\<close>

theorem findInPaper_groups_by_literal:
  assumes "getTextContent env config ref tr = (Inr paperContent, tr')"
    and "regExp_matchAll env findRegex paperContent = Inr matches"
  shows "findInPaper env config ref findRegex tr =
           (Inr (map (\<lambda>literal. \<lparr>item_text = literal,
                                sentences = map (\<lambda>m. getSentence paperContent (int (snd m)))
                                              (filter (\<lambda>m. fst m = literal) matches)\<rparr>)
                   (firstSeen (map fst matches))), tr') \<and>
         distinct (firstSeen (map fst matches)) \<and>
         set (firstSeen (map fst matches)) = fst ` set matches"
  using assms
  by (simp add: findInPaper_def collectMatches_grouped sentencesOf_def comp_def
      distinct_firstSeen set_firstSeen)

lemma getSentence_example:
  "getSentence (js ''Gene A. Gene B.'') 0 = js ''Gene A.''"
  "getSentence (js ''Gene A. Gene B.'') 8 = js ''Gene B.''"
  by code_simp+

text \<open>A literal matched twice yields one found item with the two sentences, in order.\<close>

theorem findInPaper_groups_by_literal_witness:
  "findInPaper exampleCollaborators legacyConfig examplePaper (js ''gene'') [] =
     (Inr [\<lparr>item_text = js ''Gene'', sentences = [js ''Gene A.'', js ''Gene B.'']\<rparr>],
      [GetTextContent (js ''https://x'') True])"
proof -
  have t: "getTextContent exampleCollaborators legacyConfig examplePaper [] =
           (Inr (js ''Gene A. Gene B.''), [GetTextContent (js ''https://x'') True])"
    by (simp add: getTextContent_def getWebContent_def exampleCollaborators_def examplePaper_def
        legacyConfig_def js_def)
  have m: "regExp_matchAll exampleCollaborators (js ''gene'') (js ''Gene A. Gene B.'') =
           Inr [(js ''Gene'', 0), (js ''Gene'', 8)]"
    by (simp add: exampleCollaborators_def)
  from findInPaper_groups_by_literal [OF t m] show ?thesis
    by (simp add: getSentence_example)
qed

section \<open>Paginated collection\<close>

lemma forLoop_bound:
  assumes "0 < maxItems" and "int (length entities) < maxItems"
    and "forLoop maxItems f rs entities tr = (Inr out, tr')"
  shows "int (length out) \<le> maxItems"
  using assms
proof (induction rs arbitrary: entities tr)
  case Nil
  then show ?case by simp
next
  case (Cons r rs)
  obtain res tr1 where m: "f r tr = (res, tr1)"
    by (cases "f r tr")
  show ?case
  proof (cases res)
    case (Inl e)
    with Cons.prems(3) m show ?thesis by simp
  next
    case (Inr entity)
    define entities' where
      "entities' = (case entity of None \<Rightarrow> entities | Some x \<Rightarrow> entities @ [x])"
    have l: "int (length entities') \<le> maxItems"
      using Cons.prems(2) by (simp add: entities'_def split: option.splits)
    show ?thesis
    proof (cases "maxItems \<le> int (length entities')")
      case True
      with Cons.prems m Inr have "out = entities'"
        by (simp add: entities'_def)
      with l show ?thesis by simp
    next
      case False
      with Cons.prems(3) m Inr have r: "forLoop maxItems f rs entities' tr1 = (Inr out, tr')"
        by (simp add: entities'_def)
      from False have "int (length entities') < maxItems" by simp
      from Cons.IH [OF Cons.prems(1) this r] show ?thesis .
    qed
  qed
qed

lemma whileLoop_bound:
  assumes "0 < maxItems" and "int (length entities) \<le> maxItems"
    and "whileLoop maxItems f response entities tr = (Inr out, tr')"
  shows "int (length out) \<le> maxItems"
  using assms
proof (induction maxItems f response entities tr rule: whileLoop.induct)
  case (1 maxItems mapResult entities tr)
  then show ?case by simp
next
  case (2 maxItems mapResult rs nxt entities tr)
  show ?case
  proof (cases "int (length entities) < maxItems")
    case False
    with 2 show ?thesis by simp
  next
    case True
    obtain res tr1 where f: "forLoop maxItems mapResult rs entities tr = (res, tr1)"
      by (cases "forLoop maxItems mapResult rs entities tr")
    show ?thesis
    proof (cases res)
      case (Inl e)
      with 2(4) True f show ?thesis by simp
    next
      case (Inr entities')
      with f have b: "int (length entities') \<le> maxItems"
        using forLoop_bound [OF 2(2) True] by simp
      show ?thesis
      proof (cases nxt)
        case None
        with 2(4) True f Inr b show ?thesis by simp
      next
        case (Some n)
        show ?thesis
        proof (cases n)
          case (Rejects e)
          with 2(4) True f Inr Some show ?thesis by simp
        next
          case (Resolves response')
          have "whileLoop maxItems mapResult response' entities' (tr1 @ [NextPage]) = (Inr out, tr')"
            using 2(4) True f Inr Some Resolves by simp
          from 2(1) [OF _ f [symmetric] _ Some Resolves 2(2) b this] True Inr
          show ?thesis by simp
        qed
      qed
    qed
  qed
qed

text \<open>
  C1. For a positive \<open>maxItems\<close>, whatever the query, the transform and the pages of the
  cursor, a list returned by \<^verbatim>\<open>fetchPapers\<close> has at most \<open>maxItems\<close> elements.
\<close>

theorem fetchPapers_bounded:
  assumes "0 < maxItems"
    and "fst (fetchPapers env keywords maxItems mapResult tr) = Inr entities"
  shows "int (length entities) \<le> maxItems"
proof -
  from assms(2) obtain response where
    s: "googleScholar_search env tr keywords = Inr response"
    by (auto simp: fetchPapers_def split: sum.splits)
  obtain res tr1 where
    w: "whileLoop maxItems mapResult response [] (tr @ [Search keywords]) = (res, tr1)"
    by (cases "whileLoop maxItems mapResult response [] (tr @ [Search keywords])")
  from assms(2) s w have "res = Inr entities"
    by (auto simp: fetchPapers_def split: sum.splits)
  with w whileLoop_bound [OF assms(1), of "[]" mapResult response "tr @ [Search keywords]" entities tr1]
    assms(1)
  show ?thesis by simp
qed

theorem fetchPapers_bounded_witness:
  "fst (searchPapers exampleCollaborators (js ''crispr'') 1 []) = Inr [exampleEntity] \<and>
   int (length [exampleEntity]) \<le> 1"
proof -
  have e: "fst (fetchPapers exampleCollaborators (js ''crispr'') 1 searchPapers_mapResult []) =
           Inr [exampleEntity]"
    by (simp add: fetchPapers_def exampleCollaborators_def exampleCursor_def
        searchPapers_mapResult_def exampleResult_def exampleEntity_def)
  have z: "(0::int) < 1" by simp
  from fetchPapers_bounded [OF z e] e show ?thesis
    by (simp add: searchPapers_def)
qed










lemma accession_mapResult_calls:
  "\<exists>calls. snd (searchPapersWithAccessionNumbers_mapResult env r t) = t @ calls \<and>
           Close \<notin> set calls"
proof (cases r)
  case None
  then show ?thesis by (simp add: searchPapersWithAccessionNumbers_mapResult_def)
next
  case (Some x)
  show ?thesis
  proof (cases "url x")
    case None
    with Some show ?thesis by (simp add: searchPapersWithAccessionNumbers_mapResult_def)
  next
    case u: (Some y)
    have "snd (searchPapersWithAccessionNumbers_mapResult env r t) = t @ [GetContent (url x)]"
      using Some u
      by (auto simp: searchPapersWithAccessionNumbers_mapResult_def extractAccessionNumbers_def
          split: sum.splits list.splits)
    moreover have "Close \<notin> set [GetContent (url x)]" by simp
    ultimately show ?thesis by blast
  qed
qed

lemma forLoop_skipped:
  assumes "\<forall>r t. p r \<longrightarrow> f r t = (Inr None, t)"
    and "maxItems = 0 \<or> int (length entities) < maxItems"
  shows "forLoop maxItems f (filter (\<lambda>r. \<not> p r) rs) entities tr = forLoop maxItems f rs entities tr"
  using assms(2)
proof (induction rs arbitrary: entities tr)
  case Nil
  show ?case by simp
next
  case (Cons r rs)
  show ?case
  proof (cases "p r")
    case True
    with assms(1) have "f r tr = (Inr None, tr)" by simp
    with True Cons show ?thesis by auto
  next
    case False
    obtain res tr1 where m: "f r tr = (res, tr1)"
      by (cases "f r tr")
    show ?thesis
    proof (cases res)
      case (Inl e)
      with False m show ?thesis by simp
    next
      case (Inr entity)
      define entities' where
        "entities' = (case entity of None \<Rightarrow> entities | Some x \<Rightarrow> entities @ [x])"
      show ?thesis
      proof (cases "maxItems \<noteq> 0 \<and> maxItems \<le> int (length entities')")
        case True
        with False m Inr show ?thesis by (simp add: entities'_def Let_def)
      next
        case stop: False
        then have "maxItems = 0 \<or> int (length entities') < maxItems" by auto
        from Cons.IH [OF this, of tr1] stop False m Inr show ?thesis
          by (auto simp: entities'_def Let_def)
      qed
    qed
  qed
qed

lemma whileLoop_skipped:
  assumes "\<forall>r t. p r \<longrightarrow> f r t = (Inr None, t)"
  shows "whileLoop maxItems f (withoutResults p response) entities tr =
         whileLoop maxItems f response entities tr"
  using assms
proof (induction maxItems f response entities tr rule: whileLoop.induct)
  case (1 maxItems mapResult entities tr)
  show ?case by simp
next
  case (2 maxItems mapResult rs nxt entities tr)
  show ?case
  proof (cases "maxItems = 0 \<or> int (length entities) < maxItems")
    case False
    then show ?thesis by simp
  next
    case True
    note fl = forLoop_skipped [OF 2(2) True, of rs tr]
    obtain res tr1 where f: "forLoop maxItems mapResult rs entities tr = (res, tr1)"
      by (cases "forLoop maxItems mapResult rs entities tr")
    show ?thesis
    proof (cases res)
      case (Inl e)
      with True f fl show ?thesis by simp
    next
      case (Inr entities')
      show ?thesis
      proof (cases nxt)
        case None
        with True f fl Inr show ?thesis by simp
      next
        case (Some n)
        show ?thesis
        proof (cases n)
          case (Rejects e)
          with True f fl Inr Some show ?thesis by simp
        next
          case (Resolves response')
          from 2(1) [OF True f [symmetric] Inr Some Resolves 2(2)]
          show ?thesis using True f fl Inr Some Resolves by simp
        qed
      qed
    qed
  qed
qed

lemma mapResult_no_url:
  "hasNoUrl result \<Longrightarrow> searchPapersWithAccessionNumbers_mapResult env result tr = (Inr None, tr)"
  by (cases result) (simp_all add: hasNoUrl_def searchPapersWithAccessionNumbers_mapResult_def)

text \<open>
  C10. For a search result that is null or whose URL is null or absent, the transform of
  \<^verbatim>\<open>searchPapersWithAccessionNumbers\<close> yields no entity and makes no call, so neither
  the renderer nor the accession extractor sees the result; and the whole search, its
  output and its calls, is the same as on the cursor with every such result removed.
\<close>

theorem searchPapersWithAccessionNumbers_skips_no_url:
  "(hasNoUrl result \<longrightarrow>
      searchPapersWithAccessionNumbers_mapResult env result tr = (Inr None, tr)) \<and>
   searchPapersWithAccessionNumbers
     (env\<lparr>googleScholar_search :=
            \<lambda>t k. map_sum id (withoutResults hasNoUrl) (googleScholar_search env t k)\<rparr>)
     keywords maxItems tr =
   searchPapersWithAccessionNumbers env keywords maxItems tr"
proof -
  let ?env = "env\<lparr>googleScholar_search :=
            \<lambda>t k. map_sum id (withoutResults hasNoUrl) (googleScholar_search env t k)\<rparr>"
  have e: "extractAccessionNumbers (env\<lparr>googleScholar_search := g\<rparr>) =
           extractAccessionNumbers env" for g
    by (simp add: fun_eq_iff extractAccessionNumbers_def)
  have m: "searchPapersWithAccessionNumbers_mapResult (env\<lparr>googleScholar_search := g\<rparr>) =
           searchPapersWithAccessionNumbers_mapResult env" for g
    by (auto simp: fun_eq_iff searchPapersWithAccessionNumbers_mapResult_def e
        split: option.splits)
  have s: "\<forall>r t. hasNoUrl r \<longrightarrow> searchPapersWithAccessionNumbers_mapResult env r t = (Inr None, t)"
    by (simp add: mapResult_no_url)
  have "searchPapersWithAccessionNumbers ?env keywords maxItems tr =
        searchPapersWithAccessionNumbers env keywords maxItems tr"
    by (cases "googleScholar_search env tr keywords")
      (auto simp: searchPapersWithAccessionNumbers_def fetchPapers_def m
        whileLoop_skipped [OF s] split: prod.splits sum.splits)
  then show ?thesis by (simp add: mapResult_no_url)
qed

theorem searchPapersWithAccessionNumbers_skips_no_url_witness:
  "searchPapersWithAccessionNumbers_mapResult exampleCollaborators (Some (exampleResult None)) [] =
     (Inr None, []) \<and>
   searchPapersWithAccessionNumbers
     (exampleCollaborators\<lparr>googleScholar_search :=
        \<lambda>t k. map_sum id (withoutResults hasNoUrl) (googleScholar_search exampleCollaborators t k)\<rparr>)
     (js ''crispr'') 0 [] =
   searchPapersWithAccessionNumbers exampleCollaborators (js ''crispr'') 0 []"
proof -
  have h: "hasNoUrl (Some (exampleResult None))"
    by (simp add: hasNoUrl_def exampleResult_def)
  from searchPapersWithAccessionNumbers_skips_no_url
    [of "Some (exampleResult None)" exampleCollaborators "[]" "js ''crispr''" 0] h
  show ?thesis by simp
qed

section \<open>Accession extraction\<close>

lemma accessionPrefix_chars:
  assumes "accessionPrefix s"
  shows "11 \<le> length s" "s ! 0 = 0x50" "s ! 1 = 0x52" "s ! 2 = 0x4A"
    "\<And>i. 5 \<le> i \<Longrightarrow> i < 11 \<Longrightarrow> isDigit (s ! i)"
proof -
  from assms show l: "11 \<le> length s" by (simp add: accessionPrefix_def)
  from assms have t: "take 3 s = [0x50, 0x52, 0x4A]"
    by (simp add: accessionPrefix_def js_def)
  have "take 3 s ! 0 = s ! 0" "take 3 s ! 1 = s ! 1" "take 3 s ! 2 = s ! 2"
    by simp_all
  with t show "s ! 0 = 0x50" "s ! 1 = 0x52" "s ! 2 = 0x4A"
    by simp_all
  from assms have d: "list_all isDigit (take 6 (drop 5 s))"
    by (simp add: accessionPrefix_def)
  show "isDigit (s ! i)" if "5 \<le> i" "i < 11" for i
  proof -
    have "i - 5 < length (take 6 (drop 5 s))" using that l by simp
    with d have "isDigit (take 6 (drop 5 s) ! (i - 5))"
      by (simp only: list_all_length)
    then show ?thesis using that l by simp
  qed
qed

lemma accessionPrefix_no_overlap:
  assumes "accessionPrefix s" and "0 < k" and "k < 11"
  shows "\<not> accessionPrefix (drop k s)"
proof
  assume a: "accessionPrefix (drop k s)"
  note c = accessionPrefix_chars [OF assms(1)]
  note d = accessionPrefix_chars [OF a]
  from d(1) have l: "k + 11 \<le> length s" by simp
  have p: "s ! k = 0x50" "s ! (k + 1) = 0x52" "s ! (k + 2) = 0x4A"
    using d(2,3,4) l by simp_all
  have nd: "\<not> isDigit 0x50" "\<not> isDigit 0x52" "\<not> isDigit 0x4A"
    by (simp_all add: isDigit_def)
  consider "k = 1" | "k = 2" | "k = 3" | "k = 4" | "5 \<le> k"
    using assms(2) by linarith
  then show False
  proof cases
    case 1 with p(1) c(3) show False by simp
  next
    case 2 with p(1) c(4) show False by simp
  next
    case 3
    with p(3) have "s ! 5 = 0x4A" by simp
    with c(5) [of 5] nd show False by simp
  next
    case 4
    with p(2) have "s ! 5 = 0x52" by simp
    with c(5) [of 5] nd show False by simp
  next
    case 5
    with c(5) [of k] assms(3) p(1) nd show False by simp
  qed
qed

lemma occurrences_Nil: "occurrences [] = []"
  by (simp add: occurrences_def)

lemma occurrences_Cons:
  "occurrences (c # cs) =
     (if accessionPrefix (c # cs) then [take 11 (c # cs)] else []) @ occurrences cs"
proof -
  have u: "[0..<length (c # cs)] = 0 # map Suc [0..<length cs]"
    by (metis length_Cons map_Suc_upt upt_conv_Cons zero_less_Suc)
  show ?thesis
    by (simp only: occurrences_def u) (simp add: filter_map comp_def)
qed

lemma occurrences_skip:
  "(\<forall>k<n. \<not> accessionPrefix (drop k s)) \<Longrightarrow> occurrences s = occurrences (drop n s)"
proof (induction n arbitrary: s)
  case 0
  show ?case by simp
next
  case (Suc n)
  show ?case
  proof (cases s)
    case Nil
    then show ?thesis by simp
  next
    case (Cons c cs)
    from Suc.prems have "\<not> accessionPrefix (drop 0 s)" by blast
    with Cons have h: "occurrences s = occurrences cs"
      by (simp add: occurrences_Cons)
    have "\<forall>k<n. \<not> accessionPrefix (drop k cs)"
    proof (intro allI impI)
      fix k assume "k < n"
      with Suc.prems have "\<not> accessionPrefix (drop (Suc k) s)" by simp
      with Cons show "\<not> accessionPrefix (drop k cs)" by simp
    qed
    from Suc.IH [OF this] h Cons show ?thesis by simp
  qed
qed

lemma matchAccessions_occurrences: "matchAccessions s = occurrences s"
proof (induction s rule: matchAccessions.induct)
  case 1
  show ?case by (simp add: occurrences_Nil)
next
  case (2 c cs)
  show ?case
  proof (cases "accessionPrefix (c # cs)")
    case True
    have "\<forall>k<10. \<not> accessionPrefix (drop k cs)"
    proof (intro allI impI)
      fix k :: nat assume "k < 10"
      then have "\<not> accessionPrefix (drop (Suc k) (c # cs))"
        using accessionPrefix_no_overlap [OF True, of "Suc k"] by simp
      then show "\<not> accessionPrefix (drop k cs)" by simp
    qed
    from occurrences_skip [OF this] have "occurrences cs = occurrences (drop 11 (c # cs))"
      by simp
    with True 2(1) [OF True] show ?thesis
      by (simp add: occurrences_Cons)
  next
    case False
    with 2(2) [OF False] show ?thesis
      by (simp add: occurrences_Cons)
  qed
qed

lemma occurrences_empty_iff:
  "occurrences s = [] \<longleftrightarrow> (\<forall>i. \<not> accessionPrefix (drop i s))"
proof
  assume e: "occurrences s = []"
  show "\<forall>i. \<not> accessionPrefix (drop i s)"
  proof
    fix i
    show "\<not> accessionPrefix (drop i s)"
    proof (cases "i < length s")
      case True
      with e show ?thesis
        by (auto simp: occurrences_def filter_empty_conv)
    next
      case False
      then show ?thesis by (simp add: accessionPrefix_def)
    qed
  qed
next
  assume "\<forall>i. \<not> accessionPrefix (drop i s)"
  then show "occurrences s = []"
    by (simp add: occurrences_def)
qed

text \<open>
  C7. When the page renders, \<^verbatim>\<open>extractAccessionNumbers\<close> returns null if no position of
  the content starts with PRJ, two uppercase letters and six digits, and otherwise the
  list of all the occurrences: the eleven characters at every such position, from left to
  right, none left out. That list is never empty, and each of its elements has the shape
  of the pattern.
\<close>

theorem extractAccessionNumbers_null_or_nonempty:
  assumes "odysseus_getContent env tr (url result) = Inr content"
  shows "fst (extractAccessionNumbers env result tr) =
           (if \<exists>i. accessionPrefix (drop i content)
            then Inr (Some (map (\<lambda>i. take 11 (drop i content))
                             (filter (\<lambda>i. accessionPrefix (drop i content)) [0..<length content])))
            else Inr None) \<and>
         fst (extractAccessionNumbers env result tr) \<noteq> Inr (Some []) \<and>
         ((\<exists>i. accessionPrefix (drop i content)) \<longrightarrow>
            filter (\<lambda>i. accessionPrefix (drop i content)) [0..<length content] \<noteq> [] \<and>
            (\<forall>i. accessionPrefix (drop i content) \<longrightarrow>
                 i < length content \<and> length (take 11 (drop i content)) = 11 \<and>
                 accessionPrefix (take 11 (drop i content))))"
proof -
  have m: "matchAccessions content =
           map (\<lambda>i. take 11 (drop i content))
             (filter (\<lambda>i. accessionPrefix (drop i content)) [0..<length content])"
    by (simp only: matchAccessions_occurrences occurrences_def)
  have e: "matchAccessions content = [] \<longleftrightarrow> \<not> (\<exists>i. accessionPrefix (drop i content))"
    by (simp add: matchAccessions_occurrences occurrences_empty_iff)
  have a: "fst (extractAccessionNumbers env result tr) =
           (if \<exists>i. accessionPrefix (drop i content) then Inr (Some (matchAccessions content))
            else Inr None)"
    using assms e by (auto simp: extractAccessionNumbers_def split: list.splits)
  have b: "fst (extractAccessionNumbers env result tr) \<noteq> Inr (Some [])"
    using a e by (auto split: if_splits)
  have c: "filter (\<lambda>i. accessionPrefix (drop i content)) [0..<length content] \<noteq> []"
    if "\<exists>i. accessionPrefix (drop i content)"
    using that e m by auto
  have d: "i < length content \<and> length (take 11 (drop i content)) = 11 \<and>
           accessionPrefix (take 11 (drop i content))"
    if "accessionPrefix (drop i content)" for i
  proof -
    from that have l: "11 \<le> length (drop i content)" by (simp add: accessionPrefix_def)
    then have "i < length content" by simp
    moreover from l have "length (take 11 (drop i content)) = 11" by simp
    moreover from that have "accessionPrefix (take 11 (drop i content))"
      by (simp add: accessionPrefix_def take_drop min_def)
    ultimately show ?thesis by simp
  qed
  from a b c d show ?thesis by (simp only: m) blast
qed

lemma matchAccessions_example:
  "matchAccessions (js ''CRISPR edits genome. PRJNA123456 was used. Confirmed.'') =
     [js ''PRJNA123456'']"
  "matchAccessions (js ''No identifiers here.'') = []"
  "matchAccessions (js ''id PRJEB000001PRJNA999999x'') = [js ''PRJEB000001'', js ''PRJNA999999'']"
  by code_simp+

lemma matchAccessions_positions:
  "map (\<lambda>i. take 11 (drop i s)) (filter (\<lambda>i. accessionPrefix (drop i s)) [0..<length s]) =
   matchAccessions s"
  by (simp only: matchAccessions_occurrences occurrences_def)

lemma matchAccessions_empty_iff:
  "matchAccessions s = [] \<longleftrightarrow> (\<forall>i. \<not> accessionPrefix (drop i s))"
  by (simp only: matchAccessions_occurrences occurrences_empty_iff)

theorem extractAccessionNumbers_null_or_nonempty_witness:
  "fst (extractAccessionNumbers exampleCollaborators (exampleResult (Some (js ''https://a''))) []) =
     Inr (Some [js ''PRJNA123456'']) \<and>
   fst (extractAccessionNumbers plainCollaborators (exampleResult (Some (js ''https://a''))) []) =
     Inr None \<and>
   fst (extractAccessionNumbers adjacentCollaborators (exampleResult (Some (js ''https://a''))) []) =
     Inr (Some [js ''PRJEB000001'', js ''PRJNA999999''])"
proof -
  let ?r = "exampleResult (Some (js ''https://a''))"
  have c1: "odysseus_getContent exampleCollaborators [] (url ?r) =
            Inr (js ''CRISPR edits genome. PRJNA123456 was used. Confirmed.'')"
    by (simp add: exampleCollaborators_def)
  have c2: "odysseus_getContent plainCollaborators [] (url ?r) = Inr (js ''No identifiers here.'')"
    by (simp add: plainCollaborators_def)
  have c3: "odysseus_getContent adjacentCollaborators [] (url ?r) =
            Inr (js ''id PRJEB000001PRJNA999999x'')"
    by (simp add: adjacentCollaborators_def)
  have e1: "\<exists>i. accessionPrefix
                 (drop i (js ''CRISPR edits genome. PRJNA123456 was used. Confirmed.''))"
    using matchAccessions_empty_iff [of "js ''CRISPR edits genome. PRJNA123456 was used. Confirmed.''"]
    by (simp only: matchAccessions_example) simp
  have e2: "\<not> (\<exists>i. accessionPrefix (drop i (js ''No identifiers here.'')))"
    using matchAccessions_empty_iff [of "js ''No identifiers here.''"]
    by (simp only: matchAccessions_example) simp
  have e3: "\<exists>i. accessionPrefix (drop i (js ''id PRJEB000001PRJNA999999x''))"
    using matchAccessions_empty_iff [of "js ''id PRJEB000001PRJNA999999x''"]
    by (simp only: matchAccessions_example) simp
  have r1: "fst (extractAccessionNumbers exampleCollaborators ?r []) =
            Inr (Some [js ''PRJNA123456''])"
    using extractAccessionNumbers_null_or_nonempty [OF c1, THEN conjunct1]
    by (simp only: e1 if_True matchAccessions_positions matchAccessions_example)
  have r2: "fst (extractAccessionNumbers plainCollaborators ?r []) = Inr None"
    using extractAccessionNumbers_null_or_nonempty [OF c2, THEN conjunct1]
    by (simp only: e2 if_False)
  have r3: "fst (extractAccessionNumbers adjacentCollaborators ?r []) =
            Inr (Some [js ''PRJEB000001'', js ''PRJNA999999''])"
    using extractAccessionNumbers_null_or_nonempty [OF c3, THEN conjunct1]
    by (simp only: e3 if_True matchAccessions_positions matchAccessions_example)
  from r1 r2 r3 show ?thesis by blast
qed

end
